theory Spec2Isabelle
  imports Main "HOL-Library.Word"
begin

unbundle bit_operations_syntax

section \<open>Values of the program\<close>

text \<open>
  A Python \<open>str\<close> is the list of its code points, a \<open>bytes\<close> object the list of its
  bytes. \<open>str\<close> turns an ASCII literal of the source into its code points.
\<close>

type_synonym byte = "8 word"
type_synonym bytes = "byte list"
type_synonym pystr = "nat list"

definition str :: "string \<Rightarrow> pystr" where
  "str s = map of_char s"

text \<open>
  The exceptions of the modelled functions that no handler of the source catches
  (the handlers catch \<open>apsw.Error\<close> only).
\<close>

datatype error = UnicodeEncodeError | ValueError | StructError | BinasciiError | OverflowError

section \<open>hashlib.sha256 (FIPS 180-4)\<close>

type_synonym u32 = "32 word"

definition rotr :: "nat \<Rightarrow> u32 \<Rightarrow> u32" where
  "rotr n x = drop_bit n x OR push_bit (32 - n) x"

definition Ch :: "u32 \<Rightarrow> u32 \<Rightarrow> u32 \<Rightarrow> u32" where
  "Ch x y z = (x AND y) XOR (NOT x AND z)"

definition Maj :: "u32 \<Rightarrow> u32 \<Rightarrow> u32 \<Rightarrow> u32" where
  "Maj x y z = (x AND y) XOR (x AND z) XOR (y AND z)"

definition bsig0 :: "u32 \<Rightarrow> u32" where
  "bsig0 x = rotr 2 x XOR rotr 13 x XOR rotr 22 x"

definition bsig1 :: "u32 \<Rightarrow> u32" where
  "bsig1 x = rotr 6 x XOR rotr 11 x XOR rotr 25 x"

definition ssig0 :: "u32 \<Rightarrow> u32" where
  "ssig0 x = rotr 7 x XOR rotr 18 x XOR drop_bit 3 x"

definition ssig1 :: "u32 \<Rightarrow> u32" where
  "ssig1 x = rotr 17 x XOR rotr 19 x XOR drop_bit 10 x"

text \<open>The round constants, four rounds to a line.\<close>

definition K256 :: "u32 list" where
  "K256 = concat [
   [0x428a2f98, 0x71374491, 0xb5c0fbcf, 0xe9b5dba5],
   [0x3956c25b, 0x59f111f1, 0x923f82a4, 0xab1c5ed5],
   [0xd807aa98, 0x12835b01, 0x243185be, 0x550c7dc3],
   [0x72be5d74, 0x80deb1fe, 0x9bdc06a7, 0xc19bf174],
   [0xe49b69c1, 0xefbe4786, 0x0fc19dc6, 0x240ca1cc],
   [0x2de92c6f, 0x4a7484aa, 0x5cb0a9dc, 0x76f988da],
   [0x983e5152, 0xa831c66d, 0xb00327c8, 0xbf597fc7],
   [0xc6e00bf3, 0xd5a79147, 0x06ca6351, 0x14292967],
   [0x27b70a85, 0x2e1b2138, 0x4d2c6dfc, 0x53380d13],
   [0x650a7354, 0x766a0abb, 0x81c2c92e, 0x92722c85],
   [0xa2bfe8a1, 0xa81a664b, 0xc24b8b70, 0xc76c51a3],
   [0xd192e819, 0xd6990624, 0xf40e3585, 0x106aa070],
   [0x19a4c116, 0x1e376c08, 0x2748774c, 0x34b0bcb5],
   [0x391c0cb3, 0x4ed8aa4a, 0x5b9cca4f, 0x682e6ff3],
   [0x748f82ee, 0x78a5636f, 0x84c87814, 0x8cc70208],
   [0x90befffa, 0xa4506ceb, 0xbef9a3f7, 0xc67178f2]]"

definition H256 :: "u32 list" where
  "H256 = [0x6a09e667, 0xbb67ae85, 0x3c6ef372, 0xa54ff53a,
           0x510e527f, 0x9b05688c, 0x1f83d9ab, 0x5be0cd19]"

definition be64 :: "64 word \<Rightarrow> bytes" where
  "be64 n = map (\<lambda>i. ucast (drop_bit (8 * i) n)) [7, 6, 5, 4, 3, 2, 1, 0]"

text \<open>Padding: the bit 1, zeros up to 56 modulo 64 bytes, the bit length on 64 bits.\<close>

definition sha_pad :: "bytes \<Rightarrow> bytes" where
  "sha_pad m = m @ [0x80] @ replicate ((119 - length m mod 64) mod 64) 0
                 @ be64 (of_nat (8 * length m))"

fun be_words :: "bytes \<Rightarrow> u32 list" where
  "be_words (a # b # c # d # bs) =
     (push_bit 24 (ucast a) OR push_bit 16 (ucast b) OR push_bit 8 (ucast c) OR ucast d)
       # be_words bs"
| "be_words _ = []"

text \<open>The message schedule: \<open>extend 48\<close> takes the 16 words of a block to the 64 of its rounds.\<close>

fun extend :: "nat \<Rightarrow> u32 list \<Rightarrow> u32 list" where
  "extend 0 w = w"
| "extend (Suc k) w =
     (let t = length w in
      extend k (w @ [ssig1 (w ! (t - 2)) + w ! (t - 7) + ssig0 (w ! (t - 15)) + w ! (t - 16)]))"

fun round256 :: "u32 list \<Rightarrow> u32 \<times> u32 \<Rightarrow> u32 list" where
  "round256 [a, b, c, d, e, f, g, h] (k, w) =
     (let t1 = h + bsig1 e + Ch e f g + k + w;
          t2 = bsig0 a + Maj a b c
      in [t1 + t2, a, b, c, d + t1, e, f, g])"
| "round256 s _ = s"

definition compress :: "u32 list \<Rightarrow> u32 list \<Rightarrow> u32 list" where
  "compress hs block = map2 (+) hs (foldl round256 hs (zip K256 (extend 48 block)))"

fun blocks :: "u32 list \<Rightarrow> u32 list list" where
  "blocks [] = []"
| "blocks ws = take 16 ws # blocks (drop 16 ws)"

definition word_bytes :: "u32 \<Rightarrow> bytes" where
  "word_bytes w = [ucast (drop_bit 24 w), ucast (drop_bit 16 w), ucast (drop_bit 8 w), ucast w]"

definition sha256 :: "bytes \<Rightarrow> bytes" where
  "sha256 m = concat (map word_bytes (foldl compress H256 (blocks (be_words (sha_pad m)))))"

section \<open>db_utils.py\<close>

subsection \<open>compute_url_hash\<close>

text \<open>
  \<open>str.encode()\<close>: UTF-8, one code point after the other. A surrogate has no encoding:
  Python raises \<open>UnicodeEncodeError\<close>. A number from 0x110000 on is no code point of a
  \<open>str\<close>; the model fails there as well.
\<close>

definition utf8_char :: "nat \<Rightarrow> error + bytes" where
  "utf8_char c =
     (if c < 0x80 then Inr [of_nat c]
      else if c < 0x800 then Inr [of_nat (0xC0 + c div 64), of_nat (0x80 + c mod 64)]
      else if 0xD800 \<le> c \<and> c < 0xE000 then Inl UnicodeEncodeError
      else if c < 0x10000 then
        Inr [of_nat (0xE0 + c div 4096), of_nat (0x80 + c div 64 mod 64), of_nat (0x80 + c mod 64)]
      else if c < 0x110000 then
        Inr [of_nat (0xF0 + c div 262144), of_nat (0x80 + c div 4096 mod 64),
             of_nat (0x80 + c div 64 mod 64), of_nat (0x80 + c mod 64)]
      else Inl UnicodeEncodeError)"

fun encode :: "pystr \<Rightarrow> error + bytes" where
  "encode [] = Inr []"
| "encode (c # cs) =
     (case utf8_char c of
        Inl e \<Rightarrow> Inl e
      | Inr bs \<Rightarrow> (case encode cs of Inl e \<Rightarrow> Inl e | Inr rest \<Rightarrow> Inr (bs @ rest)))"

text \<open>\<^verbatim>\<open>return sha256(f"{url}/".encode()).digest()\<close>\<close>

definition compute_url_hash :: "pystr \<Rightarrow> error + bytes" where
  "compute_url_hash url =
     (case encode (url @ str ''/'') of Inl e \<Rightarrow> Inl e | Inr bs \<Rightarrow> Inr (sha256 bs))"

subsection \<open>The tables\<close>

text \<open>
  A row of the \<open>urls\<close> table of a feed store. The three integer columns are NULL
  (\<open>None\<close>) until written; every INSERT of the source gives \<open>url\<close> and \<open>hash\<close>.
  A table is the list of its rows. The code never reads the rowid of a feed store.
\<close>

record url_row =
  url :: pystr
  lastListed :: "int option"
  lastGoogleMalicious :: "int option"
  lastYandexMalicious :: "int option"
  hash :: bytes

type_synonym urls_table = "url_row list"



text \<open>A row of \<open>maliciousHashPrefixes\<close>.\<close>

record prefix_row =
  hashPrefix :: bytes
  prefixSize :: int
  vendor :: pystr

type_synonym prefix_table = "prefix_row list"

text \<open>
  What a call that writes to a store leaves behind: \<open>(None, s)\<close> when it returns with
  the store \<open>s\<close>, \<open>(Some e, s)\<close> when the exception \<open>e\<close> leaves it, the store being \<open>s\<close>.
\<close>

type_synonym 's outcome = "error option \<times> 's"

subsection \<open>int_addr_to_ip_and_hash and add_IPs\<close>

text \<open>Decimal digits of a number, as \<open>socket.inet_ntoa\<close> prints each octet.\<close>

fun dec :: "nat \<Rightarrow> pystr" where
  "dec n = (if n < 10 then [48 + n] else dec (n div 10) @ [48 + n mod 10])"

declare dec.simps [simp del]








subsection \<open>add_URLs\<close>

text \<open>
  \<^verbatim>\<open>INSERT INTO urls (url, lastListed, hash) VALUES (?,?,?)
  ON CONFLICT(url) DO UPDATE SET lastListed=excluded.lastListed\<close>
\<close>

definition upsert :: "pystr \<Rightarrow> int \<Rightarrow> bytes \<Rightarrow> urls_table \<Rightarrow> urls_table" where
  "upsert u t h tbl =
     (if u \<in> set (map url tbl)
      then map (\<lambda>r. if url r = u then r\<lparr>lastListed := Some t\<rparr> else r) tbl
      else tbl @ [\<lparr>url = u, lastListed = Some t, lastGoogleMalicious = None,
                   lastYandexMalicious = None, hash = h\<rparr>])"

text \<open>
  An integer is bound to a statement as a signed 64-bit value; binding one outside that
  range raises \<open>OverflowError\<close>.
\<close>

definition int64 :: "int \<Rightarrow> bool" where
  "int64 i = (- (2 ^ 63) \<le> i \<and> i < 2 ^ 63)"

text \<open>
  \<open>cur.executemany\<close> over one batch: for each URL the generator builds the row, which
  hashes the URL, then the row is bound and upserted.
\<close>

fun add_batch :: "int \<Rightarrow> pystr list \<Rightarrow> urls_table \<Rightarrow> error + urls_table" where
  "add_batch lastListed' [] tbl = Inr tbl"
| "add_batch lastListed' (u # us) tbl =
     (case compute_url_hash u of
        Inl e \<Rightarrow> Inl e
      | Inr h \<Rightarrow>
          (if int64 lastListed' then add_batch lastListed' us (upsert u lastListed' h tbl)
           else Inl OverflowError))"

text \<open>\<^verbatim>\<open>for url_batch in urls: cur.executemany(...)\<close>\<close>

fun add_batches :: "int \<Rightarrow> pystr list list \<Rightarrow> urls_table \<Rightarrow> error + urls_table" where
  "add_batches lastListed' [] tbl = Inr tbl"
| "add_batches lastListed' (url_batch # urls) tbl =
     (case add_batch lastListed' url_batch tbl of
        Inl e \<Rightarrow> Inl e
      | Inr tbl' \<Rightarrow> add_batches lastListed' urls tbl')"

text \<open>
  \<open>add_URLs\<close>, given the batches its fetcher yields: all of them in one transaction
  (\<^verbatim>\<open>with conn:\<close>), which an exception rolls back.
\<close>

definition add_URLs :: "pystr list list \<Rightarrow> int \<Rightarrow> urls_table \<Rightarrow> urls_table outcome" where
  "add_URLs urls updateTime tbl =
     (case add_batches updateTime urls tbl of
        Inl e \<Rightarrow> (Some e, tbl)
      | Inr tbl' \<Rightarrow> (None, tbl'))"

subsection \<open>add_maliciousHashPrefixes\<close>

text \<open>
  \<^verbatim>\<open>DELETE FROM maliciousHashPrefixes WHERE vendor = ?\<close>, then one
  \<^verbatim>\<open>INSERT ... VALUES (hashPrefix, len(hashPrefix), vendor)\<close> for each prefix, the set
  of prefixes in the order of its iteration.
\<close>

definition add_maliciousHashPrefixes :: "bytes list \<Rightarrow> pystr \<Rightarrow> prefix_table \<Rightarrow> prefix_table" where
  "add_maliciousHashPrefixes hash_prefixes v tbl =
     filter (\<lambda>r. vendor r \<noteq> v) tbl
       @ map (\<lambda>p. \<lparr>hashPrefix = p, prefixSize = int (length p), vendor = v\<rparr>) hash_prefixes"

subsection \<open>get_matching_hashPrefix_urls and identify_suspected_urls\<close>

text \<open>
  SQLite's \<open>substring(X, 1, Z)\<close> on a blob: its first \<open>Z\<close> bytes, none when \<open>Z\<close> is
  negative.
\<close>

definition substring1 :: "bytes \<Rightarrow> int \<Rightarrow> bytes" where
  "substring1 x z = (if z < 0 then [] else take (nat z) x)"

text \<open>
  \<^verbatim>\<open>SELECT url FROM urls WHERE substring(urls.hash,1,?) IN
  (SELECT hashPrefix FROM malicious.maliciousHashPrefixes WHERE vendor = ?)\<close>
\<close>

definition get_matching_hashPrefix_urls ::
  "urls_table \<Rightarrow> prefix_table \<Rightarrow> int \<Rightarrow> pystr \<Rightarrow> pystr list" where
  "get_matching_hashPrefix_urls tbl malicious prefixSize' v =
     map url (filter (\<lambda>r. substring1 (hash r) prefixSize'
                            \<in> set (map hashPrefix (filter (\<lambda>p. vendor p = v) malicious))) tbl)"

text \<open>
  Modelled from the spec: \<open>execute_with_ray\<close> of \<open>modules/ray_utils.py\<close>, which is not
  among the sources. The spec has it run one job for each task on a pool of workers and
  collect what each job returns; the model keeps the results in the order of the tasks.
\<close>

definition execute_with_ray :: "('a \<Rightarrow> 'b) \<Rightarrow> 'a list \<Rightarrow> 'b list" where
  "execute_with_ray job tasks = map job tasks"

text \<open>\<^verbatim>\<open>suspected_urls = list(flatten(execute_with_ray([...], get_matching_hashPrefix_urls)))\<close>\<close>

definition identify_suspected_urls ::
  "pystr \<Rightarrow> urls_table \<Rightarrow> prefix_table \<Rightarrow> int list \<Rightarrow> pystr list" where
  "identify_suspected_urls v tbl malicious prefixSizes =
     concat (execute_with_ray (\<lambda>prefixSize'. get_matching_hashPrefix_urls tbl malicious prefixSize' v)
               prefixSizes)"

subsection \<open>update_malicious_URLs\<close>

text \<open>\<open>more_itertools.chunked\<close>: lists of \<open>n\<close> items, the last one shorter.\<close>

function chunked :: "'a list \<Rightarrow> nat \<Rightarrow> 'a list list" where
  "chunked xs n = (if n = 0 \<or> xs = [] then [] else take n xs # chunked (drop n xs) n)"
  by pat_completeness auto
termination
  by (relation "measure (\<lambda>(xs, n). length xs)") auto

declare chunked.simps [simp del]

text \<open>What the function does to the database file, in order.\<close>

datatype db_event = Open_Connection | Execute_Update nat | Close_Connection

datatype flag_column = LastGoogleMalicious | LastYandexMalicious

definition vendorToColumn :: "pystr \<Rightarrow> flag_column option" where
  "vendorToColumn v =
     (if v = str ''Google'' then Some LastGoogleMalicious
      else if v = str ''Yandex'' then Some LastYandexMalicious
      else None)"

text \<open>\<^verbatim>\<open>UPDATE urls SET <column> = ? WHERE url IN (?, ..., ?)\<close>\<close>

definition update_batch :: "flag_column \<Rightarrow> int \<Rightarrow> pystr list \<Rightarrow> urls_table \<Rightarrow> urls_table" where
  "update_batch col updateTime malicious_url_batch tbl =
     map (\<lambda>r. if url r \<in> set malicious_url_batch
              then (case col of
                      LastGoogleMalicious \<Rightarrow> r\<lparr>lastGoogleMalicious := Some updateTime\<rparr>
                    | LastYandexMalicious \<Rightarrow> r\<lparr>lastYandexMalicious := Some updateTime\<rparr>)
              else r) tbl"

text \<open>
  The loop \<^verbatim>\<open>for malicious_url_batch in malicious_url_batches\<close> on the batches still
  to come: each batch is one UPDATE in a transaction of its own. The parameters are bound
  first, \<open>updateTime\<close> and then the URLs, and a value that cannot be bound raises before
  the statement runs, the batches before it being committed. (Up to 30001 parameters are
  within the 32766 that SQLite allows a statement since 3.32.)
\<close>

fun update_batches ::
  "flag_column \<Rightarrow> int \<Rightarrow> pystr list list \<Rightarrow> db_event list \<times> urls_table
     \<Rightarrow> (db_event list \<times> urls_table) outcome" where
  "update_batches col updateTime [] db = (None, db)"
| "update_batches col updateTime (malicious_url_batch # malicious_url_batches) db =
     (if \<not> int64 updateTime then (Some OverflowError, db)
      else if \<not> list_all (\<lambda>u. case encode u of Inl e \<Rightarrow> False | Inr b \<Rightarrow> True) malicious_url_batch
        then (Some UnicodeEncodeError, db)
      else update_batches col updateTime malicious_url_batches
             (fst db @ [Execute_Update (length malicious_url_batch)],
              update_batch col updateTime malicious_url_batch (snd db)))"

text \<open>
  \<open>update_malicious_URLs\<close> on the trace of database events and the table: the vendor is
  checked first, then the connection is opened, the batches of 30000 are written, and the
  connection is closed. An exception that is not an \<open>apsw.Error\<close> leaves the function
  before \<open>conn.close()\<close>.
\<close>

definition update_malicious_URLs ::
  "int \<Rightarrow> pystr \<Rightarrow> pystr list \<Rightarrow> db_event list \<times> urls_table
     \<Rightarrow> (db_event list \<times> urls_table) outcome" where
  "update_malicious_URLs updateTime v malicious_urls db =
     (case vendorToColumn v of
        None \<Rightarrow> (Some ValueError, db)
      | Some col \<Rightarrow>
          (case update_batches col updateTime (chunked malicious_urls 30000)
                  (fst db @ [Open_Connection], snd db) of
             (Some e, db') \<Rightarrow> (Some e, db')
           | (None, db') \<Rightarrow> (None, fst db' @ [Close_Connection], snd db')))"

subsection \<open>retrieve_malicious_URLs\<close>

text \<open>SQL's \<open>MAX\<close> of a column: NULLs are skipped, and NULL is the maximum of none.\<close>

fun sql_max :: "int option list \<Rightarrow> int option" where
  "sql_max [] = None"
| "sql_max (None # xs) = sql_max xs"
| "sql_max (Some x # xs) = (case sql_max xs of None \<Rightarrow> Some x | Some m \<Rightarrow> Some (max x m))"

text \<open>SQL's three-valued \<open>=\<close> and \<open>OR\<close>; \<open>None\<close> is NULL, and WHERE keeps a row on true.\<close>

definition sql_eq :: "int option \<Rightarrow> int option \<Rightarrow> bool option" where
  "sql_eq a b = (case (a, b) of (Some x, Some y) \<Rightarrow> Some (x = y) | _ \<Rightarrow> None)"

definition sql_or :: "bool option \<Rightarrow> bool option \<Rightarrow> bool option" where
  "sql_or p q =
     (if p = Some True \<or> q = Some True then Some True
      else if p = Some False \<and> q = Some False then Some False
      else None)"

text \<open>The inner function \<^verbatim>\<open>retrieve_malicious_URLs_\<close>, on one store.\<close>

definition retrieve_malicious_URLs_inner :: "urls_table \<Rightarrow> pystr set" where
  "retrieve_malicious_URLs_inner tbl =
     (let lastGoogleMalicious' = sql_max (map lastGoogleMalicious tbl);
          lastYandexMalicious' = sql_max (map lastYandexMalicious tbl)
      in set (map url (filter (\<lambda>r. sql_or (sql_eq (lastGoogleMalicious r) lastGoogleMalicious')
                                          (sql_eq (lastYandexMalicious r) lastYandexMalicious')
                                   = Some True) tbl)))"

text \<open>
  \<^verbatim>\<open>list(set().union(*execute_with_ray(...)))\<close>: a list without duplicates, in no
  specified order, given by the set of its elements; the empty list is the empty set.
\<close>

definition retrieve_malicious_URLs :: "urls_table list \<Rightarrow> pystr set" where
  "retrieve_malicious_URLs stores = \<Union> (set (execute_with_ray retrieve_malicious_URLs_inner stores))"

section \<open>safebrowsing.py\<close>

subsection \<open>The helper class\<close>

text \<open>
  \<open>SafeBrowsing.__init__\<close>: the vendor and its batch size. The three endpoints, made of
  a fixed prefix and the API key of the environment, play no part in what follows.
\<close>

record SafeBrowsing =
  sb_vendor :: pystr
  maximum_url_batch_size :: nat

definition SafeBrowsing_init :: "pystr \<Rightarrow> error + SafeBrowsing" where
  "SafeBrowsing_init v =
     (if v = str ''Google'' then Inr \<lparr>sb_vendor = v, maximum_url_batch_size = 500\<rparr>
      else if v = str ''Yandex'' then Inr \<lparr>sb_vendor = v, maximum_url_batch_size = 200\<rparr>
      else Inl ValueError)"

subsection \<open>The Lookup API\<close>

text \<open>
  \<open>_threat_matches_payload\<close>: of the payload, the \<open>url\<close> of each entry of
  \<open>threatEntries\<close>; the rest of it is constant.
\<close>

definition threat_matches_payload :: "pystr list \<Rightarrow> pystr list" where
  "threat_matches_payload url_list = map (\<lambda>u. str ''http://'' @ u) url_list"

text \<open>\<open>str.replace(old, new)\<close>: every occurrence of \<open>old\<close>, from the left, without overlap.\<close>

function replace :: "pystr \<Rightarrow> pystr \<Rightarrow> pystr \<Rightarrow> pystr" where
  "replace [] old new = (if old = [] then new else [])"
| "replace (c # cs) old new =
     (if old = [] then new @ c # replace cs old new
      else if take (length old) (c # cs) = old
        then new @ replace (drop (length old) (c # cs)) old new
      else c # replace cs old new)"
  by pat_completeness auto
termination
  by (relation "measure (\<lambda>(s, old, new). length s)") auto

text \<open>
  The JSON of a threatMatches response: under \<open>matches\<close>, the \<open>threat.url\<close> of each
  match, or \<open>None\<close> when it has no \<open>matches\<close>.
\<close>

type_synonym response = "pystr list option"

text \<open>
  \<open>_threat_matches_lookup\<close>, given what the endpoint answers to each payload: the
  payload of the batch is built and posted, and the response is returned. The model
  returns the posted payload beside the response, as the record of the request.
\<close>

definition threat_matches_lookup ::
  "(pystr list \<Rightarrow> response) \<Rightarrow> pystr list \<Rightarrow> pystr list \<times> response" where
  "threat_matches_lookup post_with_retries url_batch =
     (let data = threat_matches_payload url_batch in (data, post_with_retries data))"

text \<open>
  \<open>get_malicious_urls\<close>: the payloads it has posted, in the order of the batches of
  \<^verbatim>\<open>chunked(urls, self.maximum_url_batch_size)\<close>, and its result. The set \<open>urls\<close> is
  given as the list of its elements in the order of its iteration. The result is
  \<^verbatim>\<open>list(set(...))\<close>, a list without duplicates in no specified order, given by the
  set of its elements.
\<close>

definition get_malicious_urls ::
  "SafeBrowsing \<Rightarrow> (pystr list \<Rightarrow> response) \<Rightarrow> pystr list \<Rightarrow> pystr list list \<times> pystr set" where
  "get_malicious_urls self post_with_retries urls =
     (let url_batches = chunked urls (maximum_url_batch_size self);
          results = execute_with_ray (threat_matches_lookup post_with_retries) url_batches;
          malicious = concat (map (\<lambda>res. case snd res of None \<Rightarrow> [] | Some matches \<Rightarrow> matches)
                                  results)
      in (map fst results,
          set (map (\<lambda>x. replace (replace x (str ''https://'') []) (str ''http://'') [])
                   malicious)))"

subsection \<open>The Update API\<close>

text \<open>\<open>str.encode("ascii")\<close>\<close>

definition encode_ascii :: "pystr \<Rightarrow> error + bytes" where
  "encode_ascii s =
     (if list_all (\<lambda>c. c < 128) s then Inr (map of_nat s) else Inl UnicodeEncodeError)"

text \<open>
  \<open>base64.b64decode(s)\<close> is \<open>binascii.a2b_base64(s)\<close> without validation, here after
  CPython's loop over the input with its \<open>quad_pos\<close>, \<open>leftchar\<close> and \<open>pads\<close>: a byte
  outside the alphabet is skipped, padding that completes a quad ends the input, and
  data that ends inside a quad is an error (\<open>binascii.Error\<close>). The shifted parts of an
  output byte do not overlap, so their bitwise or is a sum.
\<close>

definition table_a2b_base64 :: "byte \<Rightarrow> nat option" where
  "table_a2b_base64 b =
     (let c = unat b in
      if 65 \<le> c \<and> c \<le> 90 then Some (c - 65)
      else if 97 \<le> c \<and> c \<le> 122 then Some (c - 71)
      else if 48 \<le> c \<and> c \<le> 57 then Some (c + 4)
      else if c = 43 then Some 62
      else if c = 47 then Some 63
      else None)"

fun a2b_base64 :: "bytes \<Rightarrow> nat \<Rightarrow> nat \<Rightarrow> nat \<Rightarrow> bytes \<Rightarrow> error + bytes" where
  "a2b_base64 [] quad_pos leftchar pads bin_data =
     (if quad_pos \<noteq> 0 then Inl BinasciiError else Inr bin_data)"
| "a2b_base64 (b # ascii_data) quad_pos leftchar pads bin_data =
     (if b = 61 then
        (if quad_pos \<ge> 2 \<and> quad_pos + (pads + 1) \<ge> 4 then Inr bin_data
         else a2b_base64 ascii_data quad_pos leftchar
                (if quad_pos \<ge> 2 then pads + 1 else pads) bin_data)
      else
        (case table_a2b_base64 b of
           None \<Rightarrow> a2b_base64 ascii_data quad_pos leftchar pads bin_data
         | Some this_ch \<Rightarrow>
             (if quad_pos = 0 then a2b_base64 ascii_data 1 this_ch 0 bin_data
              else if quad_pos = 1 then
                a2b_base64 ascii_data 2 (this_ch mod 16) 0
                  (bin_data @ [of_nat (leftchar * 4 + this_ch div 16)])
              else if quad_pos = 2 then
                a2b_base64 ascii_data 3 (this_ch mod 4) 0
                  (bin_data @ [of_nat (leftchar * 16 + this_ch div 4)])
              else
                a2b_base64 ascii_data 0 0 0
                  (bin_data @ [of_nat (leftchar * 64 + this_ch)]))))"

definition b64decode :: "bytes \<Rightarrow> error + bytes" where
  "b64decode s = a2b_base64 s 0 0 0 []"

text \<open>
  \<^verbatim>\<open>[raw_hash_prefixes[i : i + prefix_size] for i in range(0, len(raw_hash_prefixes), prefix_size)]\<close>:
  \<open>range\<close> raises \<open>ValueError\<close> on the step 0 and is empty on a negative step; a slice stops
  at the end of the bytes.
\<close>

definition hashes_list :: "bytes \<Rightarrow> int \<Rightarrow> error + bytes list" where
  "hashes_list raw_hash_prefixes prefix_size =
     (if prefix_size = 0 then Inl ValueError
      else if prefix_size < 0 then Inr []
      else
        (let n = nat prefix_size in
         Inr (map (\<lambda>k. take n (drop (k * n) raw_hash_prefixes))
                  [0..<(length raw_hash_prefixes + n - 1) div n])))"

text \<open>
  The \<open>rawHashes\<close> object of an addition, with its fields \<open>prefixSize\<close> and \<open>rawHashes\<close>;
  a list update response is the list of its additions, and the JSON of the fetch is the
  list of its \<open>listUpdateResponses\<close>, or \<open>None\<close> for the \<open>{}\<close> that
  \<open>_retrieve_threat_list_updates\<close> returns without them.
\<close>

record raw_hashes =
  rh_prefixSize :: int
  rh_rawHashes :: pystr

text \<open>
  The body of the loop over the additions, up to \<open>hashes_list\<close>: the prefix size is
  read, the \<open>rawHashes\<close> string is encoded and decoded, and the bytes are cut. \<open>sorted\<close>
  does not change what \<open>hash_prefixes.update\<close> adds.
\<close>

definition addition_hashes :: "raw_hashes \<Rightarrow> error + bytes list" where
  "addition_hashes raw_hash_prefixes' =
     (case encode_ascii (rh_rawHashes raw_hash_prefixes') of
        Inl e \<Rightarrow> Inl e
      | Inr s \<Rightarrow>
          (case b64decode s of
             Inl e \<Rightarrow> Inl e
           | Inr raw_hash_prefixes \<Rightarrow>
               hashes_list raw_hash_prefixes (rh_prefixSize raw_hash_prefixes')))"

text \<open>
  The loop \<^verbatim>\<open>for addition in list_update_response["additions"]\<close> on the additions
  still to come and the set \<open>hash_prefixes\<close>. No exception is caught.
\<close>

fun additions_loop :: "raw_hashes list \<Rightarrow> bytes set \<Rightarrow> error + bytes set" where
  "additions_loop [] hash_prefixes = Inr hash_prefixes"
| "additions_loop (addition # additions) hash_prefixes =
     (case addition_hashes addition of
        Inl e \<Rightarrow> Inl e
      | Inr hs \<Rightarrow> additions_loop additions (hash_prefixes \<union> set hs))"

text \<open>The loop \<^verbatim>\<open>for list_update_response in tqdm(list_update_responses)\<close>.\<close>

fun responses_loop :: "raw_hashes list list \<Rightarrow> bytes set \<Rightarrow> error + bytes set" where
  "responses_loop [] hash_prefixes = Inr hash_prefixes"
| "responses_loop (list_update_response # list_update_responses) hash_prefixes =
     (case additions_loop list_update_response hash_prefixes of
        Inl e \<Rightarrow> Inl e
      | Inr hash_prefixes' \<Rightarrow> responses_loop list_update_responses hash_prefixes')"

text \<open>\<open>get_malicious_url_hash_prefixes\<close>, given the JSON of the fetch.\<close>

definition get_malicious_url_hash_prefixes :: "raw_hashes list list option \<Rightarrow> error + bytes set" where
  "get_malicious_url_hash_prefixes res_json =
     (case res_json of
        None \<Rightarrow> Inr {}
      | Some list_update_responses \<Rightarrow> responses_loop list_update_responses {})"

section \<open>Notions for the properties\<close>



text \<open>
  \<^verbatim>\<open>SELECT lastListed FROM urls WHERE url = ?\<close>: the \<open>lastListed\<close> of the row of a URL,
  \<open>None\<close> when it is NULL or the URL has no row.
\<close>

definition lastListed_of :: "pystr \<Rightarrow> urls_table \<Rightarrow> int option" where
  "lastListed_of u tbl =
     (case find (\<lambda>r. url r = u) tbl of None \<Rightarrow> None | Some r \<Rightarrow> lastListed r)"

text \<open>
  A sequence of \<open>add_URLs\<close> calls on one store, each given by its batches and its
  \<open>updateTime\<close>: what each call leaves behind, in order.
\<close>

fun add_URLs_calls :: "(pystr list list \<times> int) list \<Rightarrow> urls_table \<Rightarrow> urls_table outcome list" where
  "add_URLs_calls [] tbl = []"
| "add_URLs_calls (c # calls) tbl =
     add_URLs (fst c) (snd c) tbl # add_URLs_calls calls (snd (add_URLs (fst c) (snd c) tbl))"

text \<open>
  An addition decodes when the body of the loop raises nothing on it; \<open>hashes_of\<close> are
  the prefixes it then adds.
\<close>

definition decodes :: "raw_hashes \<Rightarrow> bool" where
  "decodes addition = (case addition_hashes addition of Inl e \<Rightarrow> False | Inr hs \<Rightarrow> True)"

definition hashes_of :: "raw_hashes \<Rightarrow> bytes list" where
  "hashes_of addition = (case addition_hashes addition of Inl e \<Rightarrow> [] | Inr hs \<Rightarrow> hs)"

section \<open>Properties of compute_url_hash\<close>

lemma length_round256: "length (round256 s kw) = length s"
  by (cases "(s, kw)" rule: round256.cases) (simp_all add: Let_def)

lemma length_foldl_round256: "length (foldl round256 s kws) = length s"
  by (induction kws arbitrary: s) (simp_all add: length_round256)

lemma length_compress: "length (compress hs block) = length hs"
  by (simp add: compress_def length_foldl_round256)

lemma length_foldl_compress: "length (foldl compress hs bs) = length hs"
  by (induction bs arbitrary: hs) (simp_all add: length_compress)

lemma length_concat_word_bytes: "length (concat (map word_bytes ws)) = 4 * length ws"
  by (induction ws) (simp_all add: word_bytes_def)

lemma length_sha256: "length (sha256 m) = 32"
  by (simp add: sha256_def length_concat_word_bytes length_foldl_compress H256_def)

lemma encode_append:
  "encode (xs @ ys) =
     (case encode xs of
        Inl e \<Rightarrow> Inl e
      | Inr a \<Rightarrow> (case encode ys of Inl e \<Rightarrow> Inl e | Inr b \<Rightarrow> Inr (a @ b)))"
  by (induction xs) (auto split: sum.splits)

lemma encode_slash: "encode (str ''/'') = Inr [0x2F]"
  by (simp add: str_def utf8_char_def)

lemma compute_url_hash_encode:
  "compute_url_hash u =
     (case encode u of Inl e \<Rightarrow> Inl e | Inr bs \<Rightarrow> Inr (sha256 (bs @ [0x2F])))"
  by (simp add: compute_url_hash_def encode_append encode_slash split: sum.splits)

lemma encode_example_com:
  "encode (str ''example.com'') =
     Inr [0x65, 0x78, 0x61, 0x6d, 0x70, 0x6c, 0x65, 0x2e, 0x63, 0x6f, 0x6d]"
  by (simp add: str_def utf8_char_def)

text \<open>The digest of the twelve bytes of \<open>example.com/\<close>, computed round by round.\<close>

lemma sha256_example_com:
  "sha256 [0x65, 0x78, 0x61, 0x6d, 0x70, 0x6c, 0x65, 0x2e, 0x63, 0x6f, 0x6d, 0x2f] =
     [0x73, 0xd9, 0x86, 0xe0, 0x09, 0x06, 0x5f, 0x18, 0x2c, 0x10, 0xbc, 0xb6, 0xa4, 0x5d, 0xb3, 0xd6,
      0xed, 0xa9, 0x49, 0x8f, 0x89, 0x30, 0x65, 0x4a, 0xf2, 0x65, 0x3f, 0x8a, 0x93, 0x8c, 0xd8, 0x01]"
  by code_simp

lemma compute_url_hash_example_com:
  "compute_url_hash (str ''example.com'') =
     Inr [0x73, 0xd9, 0x86, 0xe0, 0x09, 0x06, 0x5f, 0x18, 0x2c, 0x10, 0xbc, 0xb6, 0xa4, 0x5d, 0xb3, 0xd6,
          0xed, 0xa9, 0x49, 0x8f, 0x89, 0x30, 0x65, 0x4a, 0xf2, 0x65, 0x3f, 0x8a, 0x93, 0x8c, 0xd8, 0x01]"
  by (simp add: compute_url_hash_encode encode_example_com sha256_example_com)

text \<open>
  C1, as the code has it. For every URL \<open>u\<close>, \<open>compute_url_hash u\<close> is the SHA-256
  digest of the UTF-8 encoding of \<open>u\<close> followed by the one byte of \<open>/\<close> (and raises
  where \<open>u\<close> has no UTF-8 encoding); a digest has 32 bytes; the result is a function of
  \<open>u\<close> alone. For \<open>example.com\<close> the digest is \<open>73d986e0...\<close>: it begins with the bytes
  0x73 0xd9 0x86 0xe0, not with 0xd0 0x3e 0x23 0x4d.
\<close>

theorem compute_url_hash_contract:
  "compute_url_hash u =
     (case encode u of Inl e \<Rightarrow> Inl e | Inr bs \<Rightarrow> Inr (sha256 (bs @ [0x2F])))
   \<and> length (sha256 m) = 32
   \<and> map_sum id (take 4) (compute_url_hash (str ''example.com'')) = Inr [0x73, 0xd9, 0x86, 0xe0]"
  by (simp add: compute_url_hash_encode [symmetric] length_sha256 compute_url_hash_example_com)

text \<open>
  C1 as the spec states it fails at \<open>example.com\<close>: the first four bytes of the hash
  are not 0xd0 0x3e 0x23 0x4d.
\<close>

theorem compute_url_hash_example_counterexample:
  "map_sum id (take 4) (compute_url_hash (str ''example.com'')) \<noteq> Inr [0xd0, 0x3e, 0x23, 0x4d]"
  by (simp add: compute_url_hash_example_com)

section \<open>Properties of add_maliciousHashPrefixes\<close>

lemma filter_vendor_add:
  "filter (\<lambda>r. vendor r = v) (add_maliciousHashPrefixes ps v tbl) =
     map (\<lambda>p. \<lparr>hashPrefix = p, prefixSize = int (length p), vendor = v\<rparr>) ps"
  by (simp add: add_maliciousHashPrefixes_def filter_map comp_def)

lemma filter_others_add:
  "filter (\<lambda>r. vendor r \<noteq> v) (add_maliciousHashPrefixes ps v tbl) =
     filter (\<lambda>r. vendor r \<noteq> v) tbl"
  by (simp add: add_maliciousHashPrefixes_def filter_map comp_def)

lemma P1_add:
  "list_all (\<lambda>r. prefixSize r = int (length (hashPrefix r))) tbl \<Longrightarrow>
   list_all (\<lambda>r. prefixSize r = int (length (hashPrefix r))) (add_maliciousHashPrefixes ps v tbl)"
  by (auto simp: add_maliciousHashPrefixes_def list_all_iff)

lemma P1_foldl:
  "list_all (\<lambda>r. prefixSize r = int (length (hashPrefix r))) tbl \<Longrightarrow>
   list_all (\<lambda>r. prefixSize r = int (length (hashPrefix r)))
     (foldl (\<lambda>t c. add_maliciousHashPrefixes (fst c) (snd c) t) tbl calls)"
  by (induction calls arbitrary: tbl) (simp_all add: P1_add)

text \<open>
  C7. For every vendor \<open>v\<close> and prefixes \<open>ps\<close>, after \<open>add_maliciousHashPrefixes\<close>
  the rows of \<open>v\<close> are exactly one row \<open>(p, len(p), v)\<close> for each given prefix \<open>p\<close>
  (the old rows of \<open>v\<close> are deleted); the rows of every other vendor are unchanged;
  \<open>prefixSize = len(hashPrefix)\<close> is kept by the call, and holds for every row after the
  call on a table that started empty and was written by this function only, which is the
  only function of the source that writes the table.
\<close>

theorem add_maliciousHashPrefixes_replace_vendor:
  "filter (\<lambda>r. vendor r = v) (add_maliciousHashPrefixes ps v tbl) =
     map (\<lambda>p. \<lparr>hashPrefix = p, prefixSize = int (length p), vendor = v\<rparr>) ps
   \<and> filter (\<lambda>r. vendor r \<noteq> v) (add_maliciousHashPrefixes ps v tbl) =
       filter (\<lambda>r. vendor r \<noteq> v) tbl
   \<and> (list_all (\<lambda>r. prefixSize r = int (length (hashPrefix r))) tbl \<longrightarrow>
       list_all (\<lambda>r. prefixSize r = int (length (hashPrefix r)))
         (add_maliciousHashPrefixes ps v tbl))
   \<and> list_all (\<lambda>r. prefixSize r = int (length (hashPrefix r)))
       (add_maliciousHashPrefixes ps v
          (foldl (\<lambda>t c. add_maliciousHashPrefixes (fst c) (snd c) t) [] calls))"
  using filter_vendor_add filter_others_add P1_add P1_foldl [of "[]" calls]
  by simp

text \<open>C7 on a table with a row of Yandex and a row of Google, replacing Google's.\<close>

theorem add_maliciousHashPrefixes_replace_vendor_witness:
  "list_all (\<lambda>r. prefixSize r = int (length (hashPrefix r)))
     [\<lparr>hashPrefix = [1, 2, 3, 4], prefixSize = 4, vendor = str ''Yandex''\<rparr>,
      \<lparr>hashPrefix = [9, 9, 9, 9], prefixSize = 4, vendor = str ''Google''\<rparr>]
   \<and> add_maliciousHashPrefixes [[0xAA, 0xBB, 0xCC, 0xDD], [1, 2, 3, 4, 5, 6, 7, 8]] (str ''Google'')
       [\<lparr>hashPrefix = [1, 2, 3, 4], prefixSize = 4, vendor = str ''Yandex''\<rparr>,
        \<lparr>hashPrefix = [9, 9, 9, 9], prefixSize = 4, vendor = str ''Google''\<rparr>] =
       [\<lparr>hashPrefix = [1, 2, 3, 4], prefixSize = 4, vendor = str ''Yandex''\<rparr>,
        \<lparr>hashPrefix = [0xAA, 0xBB, 0xCC, 0xDD], prefixSize = 4, vendor = str ''Google''\<rparr>,
        \<lparr>hashPrefix = [1, 2, 3, 4, 5, 6, 7, 8], prefixSize = 8, vendor = str ''Google''\<rparr>]
   \<and> list_all (\<lambda>r. prefixSize r = int (length (hashPrefix r)))
       (add_maliciousHashPrefixes [[0xAA, 0xBB, 0xCC, 0xDD], [1, 2, 3, 4, 5, 6, 7, 8]] (str ''Google'')
         [\<lparr>hashPrefix = [1, 2, 3, 4], prefixSize = 4, vendor = str ''Yandex''\<rparr>,
          \<lparr>hashPrefix = [9, 9, 9, 9], prefixSize = 4, vendor = str ''Google''\<rparr>])"
  using add_maliciousHashPrefixes_replace_vendor
    [of "str ''Google''" "[[0xAA, 0xBB, 0xCC, 0xDD], [1, 2, 3, 4, 5, 6, 7, 8]]"
        "[\<lparr>hashPrefix = [1, 2, 3, 4], prefixSize = 4, vendor = str ''Yandex''\<rparr>,
          \<lparr>hashPrefix = [9, 9, 9, 9], prefixSize = 4, vendor = str ''Google''\<rparr>]" "[]"]
  by (simp add: add_maliciousHashPrefixes_def str_def)

section \<open>Properties of update_malicious_URLs\<close>

text \<open>
  C9. For a vendor that is neither \<open>Google\<close> nor \<open>Yandex\<close>, \<open>update_malicious_URLs\<close>
  raises \<open>ValueError\<close> and leaves the database as it was: no connection is opened, no
  statement is executed, and the URL store is unchanged.
\<close>

theorem update_malicious_URLs_unknown_vendor:
  "v \<noteq> str ''Google'' \<Longrightarrow> v \<noteq> str ''Yandex'' \<Longrightarrow>
   update_malicious_URLs updateTime v malicious_urls db = (Some ValueError, db)"
  by (simp add: update_malicious_URLs_def vendorToColumn_def)

text \<open>C9 for the vendor \<open>Bing\<close> on a store of one row.\<close>

theorem update_malicious_URLs_unknown_vendor_witness:
  "str ''Bing'' \<noteq> str ''Google'' \<and> str ''Bing'' \<noteq> str ''Yandex''
   \<and> update_malicious_URLs 1700000000 (str ''Bing'') [str ''a.com'']
       ([], [\<lparr>url = str ''a.com'', lastListed = Some 1600000000, lastGoogleMalicious = None,
              lastYandexMalicious = None, hash = sha256 [0x61, 0x2e, 0x63, 0x6f, 0x6d, 0x2f]\<rparr>]) =
       (Some ValueError,
        [], [\<lparr>url = str ''a.com'', lastListed = Some 1600000000, lastGoogleMalicious = None,
              lastYandexMalicious = None, hash = sha256 [0x61, 0x2e, 0x63, 0x6f, 0x6d, 0x2f]\<rparr>])"
proof -
  have a: "str ''Bing'' \<noteq> str ''Google''" and b: "str ''Bing'' \<noteq> str ''Yandex''"
    by (simp_all add: str_def)
  show ?thesis
    using a b update_malicious_URLs_unknown_vendor [OF a b] by simp
qed

section \<open>Properties of retrieve_malicious_URLs\<close>

lemma sql_max_all_None: "\<forall>x\<in>set xs. x = None \<Longrightarrow> sql_max xs = None"
  by (induction xs) auto

lemma retrieve_inner_empty:
  "\<forall>r\<in>set tbl. lastGoogleMalicious r = None \<and> lastYandexMalicious r = None \<Longrightarrow>
   retrieve_malicious_URLs_inner tbl = {}"
  by (simp add: retrieve_malicious_URLs_inner_def Let_def sql_max_all_None sql_eq_def sql_or_def
      filter_empty_conv)

text \<open>
  C10. When no row of any of the stores has ever been flagged (both flag columns are
  NULL everywhere), \<open>retrieve_malicious_URLs\<close> returns no URL: the NULL maxima match no row.
\<close>

theorem retrieve_malicious_URLs_never_flagged:
  "\<forall>tbl\<in>set stores. \<forall>r\<in>set tbl. lastGoogleMalicious r = None \<and> lastYandexMalicious r = None \<Longrightarrow>
   retrieve_malicious_URLs stores = {}"
  by (simp add: retrieve_malicious_URLs_def execute_with_ray_def retrieve_inner_empty)

text \<open>C10 on a store of two rows that were never flagged and an empty store.\<close>

theorem retrieve_malicious_URLs_never_flagged_witness:
  "list_all (list_all (\<lambda>r. lastGoogleMalicious r = None \<and> lastYandexMalicious r = None))
     [[\<lparr>url = str ''a.com'', lastListed = Some 1600000000, lastGoogleMalicious = None,
        lastYandexMalicious = None, hash = sha256 [0x61, 0x2e, 0x63, 0x6f, 0x6d, 0x2f]\<rparr>,
       \<lparr>url = str ''b.org'', lastListed = Some 1600000001, lastGoogleMalicious = None,
        lastYandexMalicious = None, hash = sha256 [0x62, 0x2e, 0x6f, 0x72, 0x67, 0x2f]\<rparr>], []]
   \<and> retrieve_malicious_URLs
       [[\<lparr>url = str ''a.com'', lastListed = Some 1600000000, lastGoogleMalicious = None,
          lastYandexMalicious = None, hash = sha256 [0x61, 0x2e, 0x63, 0x6f, 0x6d, 0x2f]\<rparr>,
         \<lparr>url = str ''b.org'', lastListed = Some 1600000001, lastGoogleMalicious = None,
          lastYandexMalicious = None, hash = sha256 [0x62, 0x2e, 0x6f, 0x72, 0x67, 0x2f]\<rparr>], []] = {}"
  using retrieve_malicious_URLs_never_flagged
    [of "[[\<lparr>url = str ''a.com'', lastListed = Some 1600000000, lastGoogleMalicious = None,
          lastYandexMalicious = None, hash = sha256 [0x61, 0x2e, 0x63, 0x6f, 0x6d, 0x2f]\<rparr>,
         \<lparr>url = str ''b.org'', lastListed = Some 1600000001, lastGoogleMalicious = None,
          lastYandexMalicious = None, hash = sha256 [0x62, 0x2e, 0x6f, 0x72, 0x67, 0x2f]\<rparr>], []]"]
  by simp

section \<open>Properties of get_malicious_urls\<close>

lemma concat_chunked: "0 < n \<Longrightarrow> concat (chunked xs n) = xs"
proof (induction xs n rule: chunked.induct)
  case (1 xs n)
  show ?case
  proof (cases "xs = []")
    case True
    then show ?thesis by (simp add: chunked.simps)
  next
    case False
    with "1" have "concat (chunked (drop n xs) n) = drop n xs" by simp
    with False "1.prems" show ?thesis by (simp add: chunked.simps [of xs n])
  qed
qed

lemma chunked_sizes: "list_all (\<lambda>b. length b \<le> n) (chunked xs n)"
proof (induction xs n rule: chunked.induct)
  case (1 xs n)
  show ?case
  proof (cases "n = 0 \<or> xs = []")
    case True
    then show ?thesis by (simp add: chunked.simps)
  next
    case False
    with "1" have "list_all (\<lambda>b. length b \<le> n) (chunked (drop n xs) n)" by simp
    with False show ?thesis by (simp add: chunked.simps [of xs n])
  qed
qed

lemma length_chunked: "0 < n \<Longrightarrow> length (chunked xs n) = (length xs + n - 1) div n"
proof (induction xs n rule: chunked.induct)
  case (1 xs n)
  show ?case
  proof (cases "xs = []")
    case True
    with "1.prems" show ?thesis by (simp add: chunked.simps)
  next
    case False
    with "1" have ih: "length (chunked (drop n xs) n) = (length xs - n + n - 1) div n" by simp
    have len: "0 < length xs" using False by simp
    show ?thesis
    proof (cases "n \<le> length xs")
      case True
      then have "(length xs + n - 1) div n = Suc ((length xs - n + n - 1) div n)"
        using "1.prems" div_add_self2 [of n "length xs - 1"] by (simp add: algebra_simps)
      with False "1.prems" ih show ?thesis by (simp add: chunked.simps [of xs n])
    next
      case False
      then have "drop n xs = []" by simp
      moreover have "(length xs + n - 1) div n = 1"
      proof -
        have e1: "length xs + n - 1 = n + (length xs - 1)" using len by linarith
        have e2: "length xs - 1 < n" using False by simp
        have "(n + (length xs - 1)) div n = 1" by (rule div_nat_eqI) (use e2 in simp_all)
        then show ?thesis unfolding e1 .
      qed
      ultimately show ?thesis using \<open>xs \<noteq> []\<close> "1.prems"
        by (simp add: chunked.simps [of xs n] chunked.simps [of "[]" n])
    qed
  qed
qed

lemma chunked_nonempty: "list_all (\<lambda>b. 0 < length b) (chunked xs n)"
proof (induction xs n rule: chunked.induct)
  case (1 xs n)
  show ?case
  proof (cases "n = 0 \<or> xs = []")
    case True
    then show ?thesis by (simp add: chunked.simps)
  next
    case False
    with "1" have "list_all (\<lambda>b. 0 < length b) (chunked (drop n xs) n)" by simp
    with False show ?thesis by (simp add: chunked.simps [of xs n])
  qed
qed

lemma sum_length_concat: "sum_list (map length xss) = length (concat xss)"
  by (induction xss) simp_all

lemma SafeBrowsing_init_cases:
  "SafeBrowsing_init v = Inr self \<Longrightarrow>
   (v = str ''Google'' \<and> maximum_url_batch_size self = 500)
   \<or> (v = str ''Yandex'' \<and> v \<noteq> str ''Google'' \<and> maximum_url_batch_size self = 200)"
  by (auto simp: SafeBrowsing_init_def split: if_splits)

lemma ceil_500: "int ((n + 500 - 1) div 500) = - ((- int n) div 500)"
  by linarith

lemma ceil_200: "int ((n + 200 - 1) div 200) = - ((- int n) div 200)"
  by linarith

text \<open>What \<open>get_malicious_urls\<close> posts: the payload of each batch, whatever is answered.\<close>

lemma get_malicious_urls_posts:
  "fst (get_malicious_urls self post_with_retries urls) =
     map threat_matches_payload (chunked urls (maximum_url_batch_size self))"
  by (simp add: get_malicious_urls_def threat_matches_lookup_def execute_with_ray_def Let_def
      comp_def)

text \<open>
  C5. For a helper of vendor \<open>Google\<close> or \<open>Yandex\<close> (the constructor raises for any
  other) the cap is 500 or 200. Whatever the endpoint answers, the payloads that
  \<open>get_malicious_urls\<close> posts are a partition of its URLs, in order, each entry being a
  URL behind \<open>http://\<close>; there are \<^verbatim>\<open>-(-len(urls) // maximum_url_batch_size)\<close> posts,
  the ceiling of the quotient; their entries are as many as the URLs; and every post
  carries at least one entry and no more entries than the cap.
\<close>

theorem lookup_batch_cap:
  assumes "SafeBrowsing_init v = Inr self"
  shows "maximum_url_batch_size self = (if v = str ''Google'' then 500 else 200)
    \<and> concat (fst (get_malicious_urls self post_with_retries urls)) =
        map (\<lambda>u. str ''http://'' @ u) urls
    \<and> int (length (fst (get_malicious_urls self post_with_retries urls))) =
        - ((- int (length urls)) div int (maximum_url_batch_size self))
    \<and> sum_list (map length (fst (get_malicious_urls self post_with_retries urls))) = length urls
    \<and> list_all (\<lambda>threatEntries. 0 < length threatEntries
                    \<and> length threatEntries \<le> maximum_url_batch_size self)
        (fst (get_malicious_urls self post_with_retries urls))"
proof -
  let ?cap = "maximum_url_batch_size self"
  let ?posts = "fst (get_malicious_urls self post_with_retries urls)"
  from SafeBrowsing_init_cases [OF assms]
  have cap: "(v = str ''Google'' \<and> ?cap = 500) \<or> (v \<noteq> str ''Google'' \<and> ?cap = 200)"
    by blast
  then have pos: "0 < ?cap" by auto
  have posts: "?posts = map threat_matches_payload (chunked urls ?cap)"
    by (rule get_malicious_urls_posts)
  have a: "?cap = (if v = str ''Google'' then 500 else 200)" using cap by auto
  have payload: "threat_matches_payload = map (\<lambda>u. str ''http://'' @ u)"
    by (rule ext) (simp add: threat_matches_payload_def)
  have "concat ?posts = map (\<lambda>u. str ''http://'' @ u) (concat (chunked urls ?cap))"
    unfolding posts payload by (simp add: map_concat)
  then have b: "concat ?posts = map (\<lambda>u. str ''http://'' @ u) urls"
    using pos by (simp add: concat_chunked)
  have "length ?posts = (length urls + ?cap - 1) div ?cap"
    unfolding posts using pos by (simp add: length_chunked)
  then have c: "int (length ?posts) = - ((- int (length urls)) div int ?cap)"
    using cap ceil_500 [of "length urls"] ceil_200 [of "length urls"] by auto
  have "sum_list (map length ?posts) = length (concat ?posts)"
    by (rule sum_length_concat)
  then have d: "sum_list (map length ?posts) = length urls"
    unfolding b by simp
  have e: "list_all (\<lambda>threatEntries. 0 < length threatEntries \<and> length threatEntries \<le> ?cap) ?posts"
    unfolding posts
    using chunked_sizes [of ?cap urls] chunked_nonempty [of urls ?cap]
    by (simp add: threat_matches_payload_def list_all_iff)
  from a b c d e show ?thesis by blast
qed

text \<open>
  C5 for Google and 1200 URLs, the endpoint finding no match: three posts of at least
  one and at most 500 entries, 1200 in all.
\<close>

theorem lookup_batch_cap_witness:
  "SafeBrowsing_init (str ''Google'') =
     Inr \<lparr>sb_vendor = str ''Google'', maximum_url_batch_size = 500\<rparr>
   \<and> length (fst (get_malicious_urls \<lparr>sb_vendor = str ''Google'', maximum_url_batch_size = 500\<rparr>
                    (\<lambda>threatEntries. None)
                    (map (\<lambda>i. dec i @ str ''.example.com'') [0..<1200]))) = 3
   \<and> sum_list (map length
         (fst (get_malicious_urls \<lparr>sb_vendor = str ''Google'', maximum_url_batch_size = 500\<rparr>
                 (\<lambda>threatEntries. None)
                 (map (\<lambda>i. dec i @ str ''.example.com'') [0..<1200])))) = 1200
   \<and> list_all (\<lambda>threatEntries. 0 < length threatEntries \<and> length threatEntries \<le> 500)
       (fst (get_malicious_urls \<lparr>sb_vendor = str ''Google'', maximum_url_batch_size = 500\<rparr>
               (\<lambda>threatEntries. None)
               (map (\<lambda>i. dec i @ str ''.example.com'') [0..<1200])))"
proof -
  have init: "SafeBrowsing_init (str ''Google'') =
      Inr \<lparr>sb_vendor = str ''Google'', maximum_url_batch_size = 500\<rparr>"
    by (simp add: SafeBrowsing_init_def)
  show ?thesis
    using init lookup_batch_cap [OF init, of "\<lambda>threatEntries. None"
        "map (\<lambda>i. dec i @ str ''.example.com'') [0..<1200]"]
    by simp
qed

text \<open>
  \<open>str.replace\<close> removes a scheme wherever it stands, not only in front.
\<close>

lemma replace_https:
  "replace (str ''http://evil.test/?next=https://bank.test'') (str ''https://'') [] =
     str ''http://evil.test/?next=bank.test''"
  by (simp add: str_def)

lemma replace_http:
  "replace (str ''http://evil.test/?next=bank.test'') (str ''http://'') [] =
     str ''evil.test/?next=bank.test''"
  by (simp add: str_def)

lemma payload_evil:
  "threat_matches_payload [str ''evil.test/?next=https://bank.test''] =
     [str ''http://evil.test/?next=https://bank.test'']"
  by (simp add: threat_matches_payload_def str_def)

text \<open>
  C6 fails on the code. The one suspect \<open>evil.test/?next=https://bank.test\<close> is posted as
  \<open>http://evil.test/?next=https://bank.test\<close> and the endpoint answers with that entry as
  the match; \<open>get_malicious_urls\<close> returns \<open>evil.test/?next=bank.test\<close>, which has lost
  the scheme inside the URL as well and is not the suspect.
\<close>

theorem get_malicious_urls_inner_scheme:
  "get_malicious_urls \<lparr>sb_vendor = str ''Google'', maximum_url_batch_size = 500\<rparr>
     (\<lambda>threatEntries. Some threatEntries) [str ''evil.test/?next=https://bank.test'']
     = ([[str ''http://evil.test/?next=https://bank.test'']], {str ''evil.test/?next=bank.test''})
   \<and> str ''evil.test/?next=bank.test'' \<noteq> str ''evil.test/?next=https://bank.test''"
  by (simp add: get_malicious_urls_def execute_with_ray_def threat_matches_lookup_def
      chunked.simps [of _ 500] Let_def payload_evil replace_https replace_http)
     (simp add: str_def)

section \<open>Properties of add_URLs\<close>

lemma find_url_map_update:
  "find (\<lambda>r. url r = u) (map (\<lambda>r. if url r = w then r\<lparr>lastListed := Some t\<rparr> else r) xs) =
     map_option (\<lambda>r. if url r = w then r\<lparr>lastListed := Some t\<rparr> else r)
       (find (\<lambda>r. url r = u) xs)"
  by (induction xs) auto

lemma find_snoc:
  "find P (xs @ [x]) =
     (case find P xs of None \<Rightarrow> (if P x then Some x else None) | Some y \<Rightarrow> Some y)"
  by (induction xs) simp_all

lemma find_url_Some: "find (\<lambda>r. url r = u) xs = Some r \<Longrightarrow> url r = u \<and> r \<in> set xs"
  by (induction xs) (auto split: if_splits)

lemma lastListed_of_upsert_same: "lastListed_of u (upsert u t h tbl) = Some t"
proof (cases "find (\<lambda>r. url r = u) tbl")
  case None
  then have "u \<notin> set (map url tbl)"
    by (auto simp: find_None_iff)
  with None show ?thesis
    by (simp add: lastListed_of_def upsert_def find_snoc)
next
  case (Some r)
  then have "url r = u" and "r \<in> set tbl"
    using find_url_Some by blast+
  then have "url r = u" and "u \<in> set (map url tbl)"
    by auto
  then show ?thesis
    using Some by (simp add: lastListed_of_def upsert_def find_url_map_update)
qed

lemma lastListed_of_upsert_other:
  assumes "w \<noteq> u"
  shows "lastListed_of u (upsert w t h tbl) = lastListed_of u tbl"
proof (cases "find (\<lambda>r. url r = u) tbl")
  case None
  with assms show ?thesis
    by (simp add: lastListed_of_def upsert_def find_url_map_update find_snoc)
next
  case (Some r)
  then have "url r = u" using find_url_Some by blast
  with Some assms show ?thesis
    by (simp add: lastListed_of_def upsert_def find_url_map_update find_snoc)
qed

lemma lastListed_of_upsert_keeps:
  "lastListed_of u tbl = Some t \<Longrightarrow> lastListed_of u (upsert w t h tbl) = Some t"
  by (cases "w = u") (simp_all add: lastListed_of_upsert_same lastListed_of_upsert_other)

lemma add_batch_lastListed:
  "add_batch t us tbl = Inr tbl' \<Longrightarrow> u \<in> set us \<or> lastListed_of u tbl = Some t \<Longrightarrow>
   lastListed_of u tbl' = Some t"
proof (induction us arbitrary: tbl)
  case Nil
  then show ?case by simp
next
  case (Cons w us)
  from Cons.prems(1) obtain h where h: "compute_url_hash w = Inr h"
    and rest: "add_batch t us (upsert w t h tbl) = Inr tbl'"
    by (auto split: sum.splits if_splits)
  have "u \<in> set us \<or> lastListed_of u (upsert w t h tbl) = Some t"
    using Cons.prems(2) by (auto simp: lastListed_of_upsert_same lastListed_of_upsert_keeps)
  with Cons.IH [OF rest] show ?case .
qed

lemma add_batches_lastListed:
  "add_batches t urls tbl = Inr tbl' \<Longrightarrow>
   u \<in> set (concat urls) \<or> lastListed_of u tbl = Some t \<Longrightarrow> lastListed_of u tbl' = Some t"
proof (induction urls arbitrary: tbl)
  case Nil
  then show ?case by simp
next
  case (Cons b urls)
  from Cons.prems(1) obtain tbl1 where b: "add_batch t b tbl = Inr tbl1"
    and rest: "add_batches t urls tbl1 = Inr tbl'"
    by (auto split: sum.splits)
  have "u \<in> set (concat urls) \<or> lastListed_of u tbl1 = Some t"
    using Cons.prems(2) add_batch_lastListed [OF b, of u] by auto
  with Cons.IH [OF rest] show ?case .
qed

lemma add_URLs_lastListed:
  "fst (add_URLs urls t tbl) = None \<Longrightarrow> u \<in> set (concat urls) \<Longrightarrow>
   lastListed_of u (snd (add_URLs urls t tbl)) = Some t"
proof -
  assume ok: "fst (add_URLs urls t tbl) = None" and u: "u \<in> set (concat urls)"
  from ok obtain tbl' where r: "add_batches t urls tbl = Inr tbl'"
    by (auto simp: add_URLs_def split: sum.splits)
  from u have "lastListed_of u tbl' = Some t"
    by (intro add_batches_lastListed [OF r]) simp
  with r show ?thesis by (simp add: add_URLs_def)
qed

lemma add_URLs_raises_unchanged:
  "fst (add_URLs urls t tbl) \<noteq> None \<Longrightarrow> snd (add_URLs urls t tbl) = tbl"
  by (auto simp: add_URLs_def split: sum.splits)

lemma add_URLs_calls_lastListed:
  "list_all (\<lambda>c. u \<in> set (concat (fst c))) calls \<Longrightarrow>
   list_all (\<lambda>out. fst out = None) (add_URLs_calls calls tbl) \<Longrightarrow>
   map (\<lambda>out. lastListed_of u (snd out)) (add_URLs_calls calls tbl) = map (\<lambda>c. Some (snd c)) calls"
  by (induction calls arbitrary: tbl) (simp_all add: add_URLs_lastListed)

text \<open>
  C3, as the code has it. In a sequence of \<open>add_URLs\<close> calls that all touch the URL \<open>u\<close>
  and none of which raises, each call leaves the \<open>lastListed\<close> of \<open>u\<close> equal to its own
  \<open>updateTime\<close>. So \<open>lastListed\<close> never decreases along the sequence when the update
  times of the calls do not decrease; the upsert itself compares nothing.
\<close>

theorem add_URLs_sets_lastListed:
  assumes "list_all (\<lambda>c. u \<in> set (concat (fst c))) calls"
    and "list_all (\<lambda>out. fst out = None) (add_URLs_calls calls tbl)"
  shows "map (\<lambda>out. lastListed_of u (snd out)) (add_URLs_calls calls tbl) = map (\<lambda>c. Some (snd c)) calls
    \<and> (sorted (map snd calls) \<longrightarrow>
        sorted (map (\<lambda>out. the (lastListed_of u (snd out))) (add_URLs_calls calls tbl)))"
proof -
  have eq: "map (\<lambda>out. lastListed_of u (snd out)) (add_URLs_calls calls tbl) = map (\<lambda>c. Some (snd c)) calls"
    using assms by (rule add_URLs_calls_lastListed)
  have "map (\<lambda>out. the (lastListed_of u (snd out))) (add_URLs_calls calls tbl)
          = map the (map (\<lambda>out. lastListed_of u (snd out)) (add_URLs_calls calls tbl))"
    by simp
  also have "\<dots> = map snd calls"
    unfolding eq by (simp add: comp_def)
  finally show ?thesis using eq by simp
qed

text \<open>The store of the one URL \<open>a.com\<close>, ingested and ingested again.\<close>

lemma compute_url_hash_a_com:
  "compute_url_hash (str ''a.com'') = Inr (sha256 [0x61, 0x2e, 0x63, 0x6f, 0x6d, 0x2f])"
  by (simp add: compute_url_hash_def str_def utf8_char_def)

lemma add_URLs_a_com_empty:
  "int64 t \<Longrightarrow>
   add_URLs [[str ''a.com'']] t [] =
     (None, [\<lparr>url = str ''a.com'', lastListed = Some t, lastGoogleMalicious = None,
              lastYandexMalicious = None, hash = sha256 [0x61, 0x2e, 0x63, 0x6f, 0x6d, 0x2f]\<rparr>])"
  by (simp add: add_URLs_def compute_url_hash_a_com upsert_def)

lemma add_URLs_a_com_again:
  "int64 t \<Longrightarrow>
   add_URLs [[str ''a.com'']] t
     [\<lparr>url = str ''a.com'', lastListed = l, lastGoogleMalicious = g,
       lastYandexMalicious = y, hash = h\<rparr>] =
     (None, [\<lparr>url = str ''a.com'', lastListed = Some t, lastGoogleMalicious = g,
              lastYandexMalicious = y, hash = h\<rparr>])"
  by (simp add: add_URLs_def compute_url_hash_a_com upsert_def)

lemma int64_times: "int64 1600000000" "int64 1700000000"
  by (simp_all add: int64_def)

text \<open>C3 on two calls for \<open>a.com\<close>, at 1600000000 and then at 1700000000.\<close>

theorem add_URLs_sets_lastListed_witness:
  "list_all (\<lambda>c. str ''a.com'' \<in> set (concat (fst c)))
     [([[str ''a.com'']], 1600000000), ([[str ''a.com'']], 1700000000)]
   \<and> list_all (\<lambda>out. fst out = None)
       (add_URLs_calls [([[str ''a.com'']], 1600000000), ([[str ''a.com'']], 1700000000)] [])
   \<and> map (\<lambda>out. lastListed_of (str ''a.com'') (snd out))
       (add_URLs_calls [([[str ''a.com'']], 1600000000), ([[str ''a.com'']], 1700000000)] [])
     = [Some 1600000000, Some 1700000000]"
proof -
  have a: "list_all (\<lambda>c. str ''a.com'' \<in> set (concat (fst c)))
     [([[str ''a.com'']], 1600000000), ([[str ''a.com'']], 1700000000)]"
    by simp
  have b: "list_all (\<lambda>out. fst out = None)
       (add_URLs_calls [([[str ''a.com'']], 1600000000), ([[str ''a.com'']], 1700000000)] [])"
    by (simp add: add_URLs_a_com_empty add_URLs_a_com_again int64_times)
  show ?thesis
    using a b add_URLs_sets_lastListed [OF a b] by simp
qed

text \<open>
  C3 as the spec states it fails: after a call at 1700000000, a call for the same URL
  with the earlier time 1600000000 lowers its \<open>lastListed\<close> to 1600000000.
\<close>

theorem add_URLs_lastListed_decreases_counterexample:
  "lastListed_of (str ''a.com'') (snd (add_URLs [[str ''a.com'']] 1700000000 [])) = Some 1700000000
   \<and> lastListed_of (str ''a.com'')
       (snd (add_URLs [[str ''a.com'']] 1600000000 (snd (add_URLs [[str ''a.com'']] 1700000000 []))))
     = Some 1600000000"
  by (simp add: add_URLs_a_com_empty add_URLs_a_com_again int64_times lastListed_of_def)

section \<open>Properties of identify_suspected_urls\<close>

lemma count_list_concat:
  "count_list (concat xss) u = sum_list (map (\<lambda>xs. count_list xs u) xss)"
  by (induction xss) simp_all

lemma count_list_distinct:
  "distinct xs \<Longrightarrow> count_list xs u = (if u \<in> set xs then 1 else 0)"
  by (induction xs) auto

lemma distinct_get_matching:
  "distinct (map url tbl) \<Longrightarrow> distinct (get_matching_hashPrefix_urls tbl malicious n v)"
  by (simp add: get_matching_hashPrefix_urls_def distinct_map_filter)

lemma sum_list_indicator:
  "sum_list (map (\<lambda>x. if P x then 1 else 0) xs) = length (filter P xs)"
  by (induction xs) simp_all

text \<open>
  C2, as the code has it. On a feed store (its \<open>url\<close> column is UNIQUE) the list
  \<open>identify_suspected_urls\<close> returns has the elements of the union of the results of
  \<open>get_matching_hashPrefix_urls\<close> for the given sizes, and holds a URL once for each of
  the given sizes at whose result it is: the results are chained, not united.
\<close>

theorem identify_suspected_urls_concat:
  assumes "distinct (map url tbl)"
  shows "set (identify_suspected_urls v tbl malicious prefixSizes) =
      (\<Union>n\<in>set prefixSizes. set (get_matching_hashPrefix_urls tbl malicious n v))
    \<and> count_list (identify_suspected_urls v tbl malicious prefixSizes) u =
      length (filter (\<lambda>n. u \<in> set (get_matching_hashPrefix_urls tbl malicious n v)) prefixSizes)"
proof -
  have "count_list (identify_suspected_urls v tbl malicious prefixSizes) u =
      sum_list (map (\<lambda>n. count_list (get_matching_hashPrefix_urls tbl malicious n v) u) prefixSizes)"
    by (simp add: identify_suspected_urls_def execute_with_ray_def count_list_concat comp_def)
  also have "\<dots> = sum_list (map (\<lambda>n. if u \<in> set (get_matching_hashPrefix_urls tbl malicious n v)
                                       then 1 else 0) prefixSizes)"
    using assms by (simp add: count_list_distinct distinct_get_matching)
  finally show ?thesis
    by (simp add: sum_list_indicator identify_suspected_urls_def execute_with_ray_def)
qed

text \<open>
  The store of the one URL \<open>example.com\<close>, and the prefix table of Google with the
  first four and the first eight bytes of its hash.
\<close>

lemma add_URLs_example_com:
  "int64 t \<Longrightarrow>
   add_URLs [[str ''example.com'']] t [] =
     (None, [\<lparr>url = str ''example.com'', lastListed = Some t, lastGoogleMalicious = None,
              lastYandexMalicious = None,
              hash = [0x73, 0xd9, 0x86, 0xe0, 0x09, 0x06, 0x5f, 0x18, 0x2c, 0x10, 0xbc, 0xb6,
                      0xa4, 0x5d, 0xb3, 0xd6, 0xed, 0xa9, 0x49, 0x8f, 0x89, 0x30, 0x65, 0x4a,
                      0xf2, 0x65, 0x3f, 0x8a, 0x93, 0x8c, 0xd8, 0x01]\<rparr>])"
  by (simp add: add_URLs_def compute_url_hash_example_com upsert_def)

lemma identify_example_com:
  "identify_suspected_urls (str ''Google'')
     (snd (add_URLs [[str ''example.com'']] 1700000000 []))
     (add_maliciousHashPrefixes
        [[0x73, 0xd9, 0x86, 0xe0], [0x73, 0xd9, 0x86, 0xe0, 0x09, 0x06, 0x5f, 0x18]]
        (str ''Google'') [])
     [4, 8] = [str ''example.com'', str ''example.com'']"
  by (simp add: add_URLs_example_com int64_times add_maliciousHashPrefixes_def
      identify_suspected_urls_def
      execute_with_ray_def get_matching_hashPrefix_urls_def substring1_def)

text \<open>C2 on that store: \<open>example.com\<close> is listed twice for the sizes 4 and 8.\<close>

theorem identify_suspected_urls_concat_witness:
  "distinct (map url (snd (add_URLs [[str ''example.com'']] 1700000000 [])))
   \<and> count_list
       (identify_suspected_urls (str ''Google'')
          (snd (add_URLs [[str ''example.com'']] 1700000000 []))
          (add_maliciousHashPrefixes
             [[0x73, 0xd9, 0x86, 0xe0], [0x73, 0xd9, 0x86, 0xe0, 0x09, 0x06, 0x5f, 0x18]]
             (str ''Google'') [])
          [4, 8])
       (str ''example.com'') = 2"
proof -
  have d: "distinct (map url (snd (add_URLs [[str ''example.com'']] 1700000000 [])))"
    by (simp add: add_URLs_example_com int64_times)
  show ?thesis
    using d identify_suspected_urls_concat [OF d, of "str ''Google''"
        "add_maliciousHashPrefixes
           [[0x73, 0xd9, 0x86, 0xe0], [0x73, 0xd9, 0x86, 0xe0, 0x09, 0x06, 0x5f, 0x18]]
           (str ''Google'') []"
        "[4, 8]" "str ''example.com''"]
    by (simp add: identify_example_com)
qed

text \<open>
  C2 as the spec states it fails: the hash of \<open>example.com\<close> matches a prefix of 4 bytes
  and a prefix of 8 bytes, and the suspects hold the URL twice.
\<close>

theorem identify_suspected_urls_duplicate_counterexample:
  "identify_suspected_urls (str ''Google'')
     (snd (add_URLs [[str ''example.com'']] 1700000000 []))
     (add_maliciousHashPrefixes
        [[0x73, 0xd9, 0x86, 0xe0], [0x73, 0xd9, 0x86, 0xe0, 0x09, 0x06, 0x5f, 0x18]]
        (str ''Google'') [])
     [4, 8] = [str ''example.com'', str ''example.com'']
   \<and> \<not> distinct
       (identify_suspected_urls (str ''Google'')
          (snd (add_URLs [[str ''example.com'']] 1700000000 []))
          (add_maliciousHashPrefixes
             [[0x73, 0xd9, 0x86, 0xe0], [0x73, 0xd9, 0x86, 0xe0, 0x09, 0x06, 0x5f, 0x18]]
             (str ''Google'') [])
          [4, 8])"
  by (simp add: identify_example_com)

section \<open>Properties of get_malicious_url_hash_prefixes\<close>

lemma additions_loop_decodes:
  "list_all decodes additions \<Longrightarrow>
   additions_loop additions acc = Inr (acc \<union> (\<Union>a\<in>set additions. set (hashes_of a)))"
  by (induction additions arbitrary: acc)
     (auto simp: decodes_def hashes_of_def split: sum.splits)

lemma additions_loop_raises:
  "list_all decodes pre \<Longrightarrow> addition_hashes a = Inl e \<Longrightarrow>
   additions_loop (pre @ a # post) acc = Inl e"
  by (induction pre arbitrary: acc) (auto simp: decodes_def split: sum.splits)

lemma responses_loop_decodes:
  "list_all decodes (concat rs) \<Longrightarrow>
   responses_loop rs acc = Inr (acc \<union> (\<Union>a\<in>set (concat rs). set (hashes_of a)))"
  by (induction rs arbitrary: acc) (auto simp: additions_loop_decodes)

lemma responses_loop_raises:
  "list_all decodes (concat pre_rs) \<Longrightarrow> list_all decodes pre \<Longrightarrow> addition_hashes a = Inl e \<Longrightarrow>
   responses_loop (pre_rs @ (pre @ a # post) # post_rs) acc = Inl e"
  by (induction pre_rs arbitrary: acc)
     (simp_all add: additions_loop_raises additions_loop_decodes)

lemma concat_slices:
  "0 < n \<Longrightarrow> length raw \<le> c * n \<Longrightarrow>
   concat (map (\<lambda>k. take n (drop (k * n) raw)) [0..<c]) = raw"
proof (induction c arbitrary: raw)
  case 0
  then show ?case by simp
next
  case (Suc c)
  have "[0..<Suc c] = 0 # map Suc [0..<c]"
    by (simp add: upt_conv_Cons map_Suc_upt del: upt_Suc)
  then have "concat (map (\<lambda>k. take n (drop (k * n) raw)) [0..<Suc c]) =
      take n raw @ concat (map (\<lambda>k. take n (drop (k * n) (drop n raw))) [0..<c])"
    by (simp add: comp_def add.commute del: upt_Suc)
  also have "concat (map (\<lambda>k. take n (drop (k * n) (drop n raw))) [0..<c]) = drop n raw"
    using Suc.prems by (intro Suc.IH) simp_all
  finally show ?case by simp
qed

lemma le_ceil_mult: "0 < n \<Longrightarrow> a \<le> (a + n - 1) div n * n" for a n :: nat
proof -
  assume n: "0 < n"
  have "(a + n - 1) div n * n + (a + n - 1) mod n = a + n - 1"
    by (rule div_mult_mod_eq)
  moreover have "(a + n - 1) mod n < n" using n by simp
  ultimately show ?thesis by linarith
qed

lemma slice_index:
  fixes k n len :: nat
  assumes "0 < n" and "k < (len + n - 1) div n"
  shows "k * n < len"
proof -
  define c where "c = (len + n - 1) div n"
  have "c * n \<le> len + n - 1" unfolding c_def by simp
  moreover have "Suc k * n \<le> c * n"
    using assms(2) unfolding c_def by (intro mult_le_mono1) simp
  moreover have "Suc k * n = k * n + n" by simp
  ultimately have "k * n + n \<le> len + n - 1" by linarith
  with assms(1) show ?thesis by linarith
qed

lemma ceil_not_dvd:
  fixes n len :: nat
  assumes "0 < n" and "\<not> n dvd len"
  shows "(len + n - 1) div n = Suc (len div n)"
proof -
  define q r where "q = len div n" and "r = len mod n"
  have r: "0 < r" using assms unfolding r_def by (simp add: dvd_eq_mod_eq_0)
  have rn: "r < n" using assms(1) unfolding r_def by simp
  have "len = q * n + r" unfolding q_def r_def by simp
  moreover have "Suc q * n = q * n + n" by simp
  ultimately have "len + n - 1 = Suc q * n + (r - 1)" using r by linarith
  moreover have "(Suc q * n + (r - 1)) div n = Suc q"
    using rn assms(1) by (simp only: div_mult_self3) simp
  ultimately show ?thesis unfolding q_def by simp
qed

lemma butlast_upt0: "butlast [0..<c] = [0..<c - 1]"
  by (cases c) simp_all

lemma list_all_map_upt: "(\<And>k. k < c \<Longrightarrow> P (f k)) \<Longrightarrow> list_all P (map f [0..<c])"
  by (simp add: list_all_iff)

lemma hashes_list_slices:
  assumes "0 < prefix_size"
  shows "\<exists>hs. hashes_list raw prefix_size = Inr hs \<and> concat hs = raw
    \<and> list_all (\<lambda>h. 0 < length h \<and> int (length h) \<le> prefix_size) hs
    \<and> list_all (\<lambda>h. int (length h) = prefix_size) (butlast hs)
    \<and> (\<not> prefix_size dvd int (length raw) \<longrightarrow>
         hs \<noteq> [] \<and> int (length (last hs)) = int (length raw) mod prefix_size)"
proof -
  define n where "n = nat prefix_size"
  define c where "c = (length raw + n - 1) div n"
  define f where "f = (\<lambda>k. take n (drop (k * n) raw))"
  have n: "0 < n" and np: "int n = prefix_size" using assms unfolding n_def by simp_all
  have hs: "hashes_list raw prefix_size = Inr (map f [0..<c])"
    using assms by (simp add: hashes_list_def Let_def n_def c_def f_def)
  have a: "concat (map f [0..<c]) = raw"
    unfolding f_def c_def using n by (intro concat_slices le_ceil_mult)
  have len: "length (f k) = min n (length raw - k * n)" for k
    unfolding f_def by simp
  have b: "list_all (\<lambda>h. 0 < length h \<and> int (length h) \<le> prefix_size) (map f [0..<c])"
  proof (rule list_all_map_upt)
    fix k assume "k < c"
    then have "k * n < length raw" unfolding c_def using n by (intro slice_index)
    then have "0 < length (f k)" and "length (f k) \<le> n" using n unfolding len by simp_all
    then show "0 < length (f k) \<and> int (length (f k)) \<le> prefix_size"
      unfolding np [symmetric] by simp
  qed
  have bl: "butlast (map f [0..<c]) = map f [0..<c - 1]"
    by (simp only: map_butlast [symmetric] butlast_upt0)
  have c: "list_all (\<lambda>h. int (length h) = prefix_size) (butlast (map f [0..<c]))"
    unfolding bl
  proof (rule list_all_map_upt)
    fix k assume "k < c - 1"
    then have "Suc k < c" by simp
    then have "Suc k * n < length raw" unfolding c_def using n by (intro slice_index)
    then have "n \<le> length raw - k * n" by simp
    then have "length (f k) = n" unfolding len by simp
    then show "int (length (f k)) = prefix_size" unfolding np [symmetric] by simp
  qed
  have d: "map f [0..<c] \<noteq> [] \<and> int (length (last (map f [0..<c]))) = int (length raw) mod prefix_size"
    if nd: "\<not> prefix_size dvd int (length raw)"
  proof -
    from nd have nd': "\<not> n dvd length raw"
      unfolding np [symmetric] by simp
    have cc: "c = Suc (length raw div n)" unfolding c_def using n nd' by (rule ceil_not_dvd)
    have ne: "map f [0..<c] \<noteq> []" unfolding cc by simp
    have l: "last (map f [0..<c]) = f (length raw div n)" unfolding cc by simp
    have "length raw - length raw div n * n = length raw mod n"
      by (simp add: minus_div_mult_eq_mod)
    moreover have "length raw mod n < n" using n by simp
    ultimately have "length (last (map f [0..<c])) = length raw mod n"
      unfolding l len by simp
    then have "int (length (last (map f [0..<c]))) = int (length raw) mod int n"
      by (simp add: zmod_int)
    with ne show ?thesis unfolding np by simp
  qed
  from hs a b c d show ?thesis by blast
qed

lemma addition_hashes_slices:
  assumes "0 < rh_prefixSize a" and "encode_ascii (rh_rawHashes a) = Inr s"
    and "b64decode s = Inr raw"
  shows "decodes a \<and> concat (hashes_of a) = raw
    \<and> list_all (\<lambda>h. 0 < length h \<and> int (length h) \<le> rh_prefixSize a) (hashes_of a)
    \<and> list_all (\<lambda>h. int (length h) = rh_prefixSize a) (butlast (hashes_of a))
    \<and> (\<not> rh_prefixSize a dvd int (length raw) \<longrightarrow>
         hashes_of a \<noteq> []
         \<and> int (length (last (hashes_of a))) = int (length raw) mod rh_prefixSize a
         \<and> int (length (last (hashes_of a))) < rh_prefixSize a)"
proof -
  from hashes_list_slices [OF assms(1), of raw] obtain hs where
    hs: "hashes_list raw (rh_prefixSize a) = Inr hs" and p: "concat hs = raw"
      "list_all (\<lambda>h. 0 < length h \<and> int (length h) \<le> rh_prefixSize a) hs"
      "list_all (\<lambda>h. int (length h) = rh_prefixSize a) (butlast hs)"
      "\<not> rh_prefixSize a dvd int (length raw) \<longrightarrow>
         hs \<noteq> [] \<and> int (length (last hs)) = int (length raw) mod rh_prefixSize a"
    by blast
  have ah: "addition_hashes a = Inr hs"
    using assms(2,3) hs by (simp add: addition_hashes_def)
  then have d: "decodes a" and h: "hashes_of a = hs"
    by (simp_all add: decodes_def hashes_of_def)
  have "int (length raw) mod rh_prefixSize a < rh_prefixSize a"
    using assms(1) by simp
  with d p show ?thesis unfolding h by simp
qed

lemma additions_loop_returns:
  "additions_loop additions acc = Inr S \<Longrightarrow> list_all decodes additions"
  by (induction additions arbitrary: acc) (auto simp: decodes_def split: sum.splits)

lemma responses_loop_returns:
  "responses_loop rs acc = Inr S \<Longrightarrow> list_all decodes (concat rs)"
  by (induction rs arbitrary: acc) (auto simp: additions_loop_returns split: sum.splits)

text \<open>
  C8, as the code has it. No exception is caught in \<open>get_malicious_url_hash_prefixes\<close>.
  When the additions before an addition decode and that addition raises \<open>e\<close> (malformed
  base64 is \<open>binascii.Error\<close>), the call raises \<open>e\<close>, whatever additions and responses
  follow, and returns no set. When every addition decodes, the result is the union of
  their prefixes, and the call returns only then. A decoded length that is not a multiple
  of the prefix size is no failure: an addition of positive prefix size whose \<open>rawHashes\<close>
  decode to the bytes \<open>raw\<close> decodes, its prefixes are all of \<open>raw\<close> in order, none of them
  empty or longer than the prefix size, all but the last of the prefix size, and when the
  length of \<open>raw\<close> is no multiple of the prefix size the last prefix is the rest, shorter
  than the prefix size.
\<close>

theorem decode_failure_raises:
  "(list_all decodes (concat pre_rs) \<and> list_all decodes pre \<and> addition_hashes a = Inl e \<longrightarrow>
      get_malicious_url_hash_prefixes (Some (pre_rs @ (pre @ a # post) # post_rs)) = Inl e)
   \<and> (list_all decodes (concat rs) \<longrightarrow>
      get_malicious_url_hash_prefixes (Some rs) = Inr (\<Union>a\<in>set (concat rs). set (hashes_of a)))
   \<and> (get_malicious_url_hash_prefixes (Some rs) = Inr S \<longrightarrow> list_all decodes (concat rs))
   \<and> (0 < rh_prefixSize b \<and> encode_ascii (rh_rawHashes b) = Inr s \<and> b64decode s = Inr raw \<longrightarrow>
      decodes b \<and> concat (hashes_of b) = raw
      \<and> list_all (\<lambda>h. 0 < length h \<and> int (length h) \<le> rh_prefixSize b) (hashes_of b)
      \<and> list_all (\<lambda>h. int (length h) = rh_prefixSize b) (butlast (hashes_of b))
      \<and> (\<not> rh_prefixSize b dvd int (length raw) \<longrightarrow>
           hashes_of b \<noteq> []
           \<and> int (length (last (hashes_of b))) = int (length raw) mod rh_prefixSize b
           \<and> int (length (last (hashes_of b))) < rh_prefixSize b))"
proof (intro conjI impI)
  assume "list_all decodes (concat pre_rs) \<and> list_all decodes pre \<and> addition_hashes a = Inl e"
  then show "get_malicious_url_hash_prefixes (Some (pre_rs @ (pre @ a # post) # post_rs)) = Inl e"
    by (simp add: get_malicious_url_hash_prefixes_def responses_loop_raises)
next
  assume "list_all decodes (concat rs)"
  then show "get_malicious_url_hash_prefixes (Some rs) =
      Inr (\<Union>a\<in>set (concat rs). set (hashes_of a))"
    by (simp add: get_malicious_url_hash_prefixes_def responses_loop_decodes)
next
  assume "get_malicious_url_hash_prefixes (Some rs) = Inr S"
  then have "responses_loop rs {} = Inr S"
    by (simp add: get_malicious_url_hash_prefixes_def)
  then show "list_all decodes (concat rs)"
    by (rule responses_loop_returns)
next
  assume h: "0 < rh_prefixSize b \<and> encode_ascii (rh_rawHashes b) = Inr s \<and> b64decode s = Inr raw"
  then have p: "0 < rh_prefixSize b" and en: "encode_ascii (rh_rawHashes b) = Inr s"
    and de: "b64decode s = Inr raw"
    by blast+
  note sl = addition_hashes_slices [OF p en de]
  from sl show "decodes b" by blast
  from sl show "concat (hashes_of b) = raw" by blast
  from sl show "list_all (\<lambda>h. 0 < length h \<and> int (length h) \<le> rh_prefixSize b) (hashes_of b)"
    by blast
  from sl show "list_all (\<lambda>h. int (length h) = rh_prefixSize b) (butlast (hashes_of b))"
    by blast
  assume nd: "\<not> rh_prefixSize b dvd int (length raw)"
  from sl nd show "hashes_of b \<noteq> []" by blast
  from sl nd show "int (length (last (hashes_of b))) = int (length raw) mod rh_prefixSize b"
    by blast
  from sl nd show "int (length (last (hashes_of b))) < rh_prefixSize b" by blast
qed

text \<open>
  Three additions of prefix size 4: eight bytes, base64 that ends inside a quad, and five
  bytes.
\<close>

lemma addition_hashes_good:
  "addition_hashes \<lparr>rh_prefixSize = 4, rh_rawHashes = str ''c9mG4CwQvLY=''\<rparr> =
     Inr [[0x73, 0xd9, 0x86, 0xe0], [0x2c, 0x10, 0xbc, 0xb6]]"
  by (simp add: addition_hashes_def encode_ascii_def str_def b64decode_def table_a2b_base64_def
      hashes_list_def Let_def upt_conv_Cons)

lemma addition_hashes_bad:
  "addition_hashes \<lparr>rh_prefixSize = 4, rh_rawHashes = str ''c9mG4A''\<rparr> = Inl BinasciiError"
  by (simp add: addition_hashes_def encode_ascii_def str_def b64decode_def table_a2b_base64_def)

lemma addition_hashes_odd:
  "addition_hashes \<lparr>rh_prefixSize = 4, rh_rawHashes = str ''c9mG4Cw=''\<rparr> =
     Inr [[0x73, 0xd9, 0x86, 0xe0], [0x2c]]"
  by (simp add: addition_hashes_def encode_ascii_def str_def b64decode_def table_a2b_base64_def
      hashes_list_def Let_def upt_conv_Cons)

lemma encode_ascii_odd:
  "encode_ascii (str ''c9mG4Cw='') = Inr [0x63, 0x39, 0x6d, 0x47, 0x34, 0x43, 0x77, 0x3d]"
  by (simp add: encode_ascii_def str_def)

lemma b64decode_odd:
  "b64decode [0x63, 0x39, 0x6d, 0x47, 0x34, 0x43, 0x77, 0x3d] = Inr [0x73, 0xd9, 0x86, 0xe0, 0x2c]"
  by (simp add: b64decode_def table_a2b_base64_def)

text \<open>
  C8 on these additions: the call raises at the malformed one, returns the prefixes of the
  other two, and the fifth byte of the five is a prefix of its own.
\<close>

theorem decode_failure_raises_witness:
  "list_all decodes [\<lparr>rh_prefixSize = 4, rh_rawHashes = str ''c9mG4CwQvLY=''\<rparr>]
   \<and> addition_hashes \<lparr>rh_prefixSize = 4, rh_rawHashes = str ''c9mG4A''\<rparr> = Inl BinasciiError
   \<and> get_malicious_url_hash_prefixes
       (Some [[\<lparr>rh_prefixSize = 4, rh_rawHashes = str ''c9mG4CwQvLY=''\<rparr>,
               \<lparr>rh_prefixSize = 4, rh_rawHashes = str ''c9mG4A''\<rparr>,
               \<lparr>rh_prefixSize = 4, rh_rawHashes = str ''c9mG4Cw=''\<rparr>]]) = Inl BinasciiError
   \<and> list_all decodes [\<lparr>rh_prefixSize = 4, rh_rawHashes = str ''c9mG4CwQvLY=''\<rparr>,
                        \<lparr>rh_prefixSize = 4, rh_rawHashes = str ''c9mG4Cw=''\<rparr>]
   \<and> get_malicious_url_hash_prefixes
       (Some [[\<lparr>rh_prefixSize = 4, rh_rawHashes = str ''c9mG4CwQvLY=''\<rparr>],
              [\<lparr>rh_prefixSize = 4, rh_rawHashes = str ''c9mG4Cw=''\<rparr>]]) =
       Inr {[0x73, 0xd9, 0x86, 0xe0], [0x2c, 0x10, 0xbc, 0xb6], [0x2c]}
   \<and> encode_ascii (str ''c9mG4Cw='') = Inr [0x63, 0x39, 0x6d, 0x47, 0x34, 0x43, 0x77, 0x3d]
   \<and> b64decode [0x63, 0x39, 0x6d, 0x47, 0x34, 0x43, 0x77, 0x3d] = Inr [0x73, 0xd9, 0x86, 0xe0, 0x2c]
   \<and> \<not> (4 :: int) dvd int (length [0x73, 0xd9, 0x86, 0xe0, 0x2c :: byte])
   \<and> decodes \<lparr>rh_prefixSize = 4, rh_rawHashes = str ''c9mG4Cw=''\<rparr>
   \<and> concat (hashes_of \<lparr>rh_prefixSize = 4, rh_rawHashes = str ''c9mG4Cw=''\<rparr>) =
       [0x73, 0xd9, 0x86, 0xe0, 0x2c]
   \<and> length (last (hashes_of \<lparr>rh_prefixSize = 4, rh_rawHashes = str ''c9mG4Cw=''\<rparr>)) = 1"
proof -
  let ?good = "\<lparr>rh_prefixSize = 4, rh_rawHashes = str ''c9mG4CwQvLY=''\<rparr>"
  let ?bad = "\<lparr>rh_prefixSize = 4, rh_rawHashes = str ''c9mG4A''\<rparr>"
  let ?odd = "\<lparr>rh_prefixSize = 4, rh_rawHashes = str ''c9mG4Cw=''\<rparr>"
  let ?s = "[0x63, 0x39, 0x6d, 0x47, 0x34, 0x43, 0x77, 0x3d] :: bytes"
  let ?raw = "[0x73, 0xd9, 0x86, 0xe0, 0x2c] :: bytes"
  note inst = decode_failure_raises [where pre_rs = "[]" and pre = "[?good]" and a = ?bad
      and e = BinasciiError and post = "[?odd]" and post_rs = "[]" and rs = "[[?good], [?odd]]"
      and S = "{[0x73, 0xd9, 0x86, 0xe0], [0x2c, 0x10, 0xbc, 0xb6], [0x2c]}"
      and b = ?odd and s = ?s and raw = ?raw]
  note i1 = inst [THEN conjunct1]
  note i2 = inst [THEN conjunct2, THEN conjunct1]
  note i4 = inst [THEN conjunct2, THEN conjunct2, THEN conjunct2]
  have g: "list_all decodes [?good]"
    by (simp add: decodes_def addition_hashes_good)
  have go: "list_all decodes [?good, ?odd]"
    by (simp add: decodes_def addition_hashes_good addition_hashes_odd)
  have h1: "list_all decodes (concat []) \<and> list_all decodes [?good]
      \<and> addition_hashes ?bad = Inl BinasciiError"
    using g addition_hashes_bad by simp
  from i1 h1
  have "get_malicious_url_hash_prefixes (Some ([] @ ([?good] @ ?bad # [?odd]) # [])) =
      Inl BinasciiError"
    by (rule mp)
  then have r1: "get_malicious_url_hash_prefixes (Some [[?good, ?bad, ?odd]]) = Inl BinasciiError"
    by simp
  have h2: "list_all decodes (concat [[?good], [?odd]])"
    using go by simp
  from i2 h2
  have "get_malicious_url_hash_prefixes (Some [[?good], [?odd]]) =
      Inr (\<Union>a\<in>set (concat [[?good], [?odd]]). set (hashes_of a))"
    by (rule mp)
  moreover have "hashes_of ?good = [[0x73, 0xd9, 0x86, 0xe0], [0x2c, 0x10, 0xbc, 0xb6]]"
    and "hashes_of ?odd = [[0x73, 0xd9, 0x86, 0xe0], [0x2c]]"
    by (simp_all add: hashes_of_def addition_hashes_good addition_hashes_odd)
  ultimately have r2: "get_malicious_url_hash_prefixes (Some [[?good], [?odd]]) =
      Inr {[0x73, 0xd9, 0x86, 0xe0], [0x2c, 0x10, 0xbc, 0xb6], [0x2c]}"
    by auto
  have nd: "\<not> (4 :: int) dvd int (length ?raw)"
    by simp
  have h4: "0 < rh_prefixSize ?odd \<and> encode_ascii (rh_rawHashes ?odd) = Inr ?s
      \<and> b64decode ?s = Inr ?raw"
    using encode_ascii_odd b64decode_odd by simp
  from i4 h4
  have c4: "decodes ?odd \<and> concat (hashes_of ?odd) = ?raw
      \<and> list_all (\<lambda>h. 0 < length h \<and> int (length h) \<le> rh_prefixSize ?odd) (hashes_of ?odd)
      \<and> list_all (\<lambda>h. int (length h) = rh_prefixSize ?odd) (butlast (hashes_of ?odd))
      \<and> (\<not> rh_prefixSize ?odd dvd int (length ?raw) \<longrightarrow>
           hashes_of ?odd \<noteq> []
           \<and> int (length (last (hashes_of ?odd))) = int (length ?raw) mod rh_prefixSize ?odd
           \<and> int (length (last (hashes_of ?odd))) < rh_prefixSize ?odd)"
    by (rule mp)
  then have d: "decodes ?odd" and c: "concat (hashes_of ?odd) = ?raw"
    by blast+
  from c4 nd have "int (length (last (hashes_of ?odd))) = int (length ?raw) mod rh_prefixSize ?odd"
    by simp
  then have r4: "length (last (hashes_of ?odd)) = 1" by simp
  from g addition_hashes_bad r1 go r2 encode_ascii_odd b64decode_odd nd d c r4 show ?thesis
    by blast
qed

text \<open>
  C8 as the spec states it fails: with the malformed addition first the call raises
  \<open>binascii.Error\<close> and the second addition is never read; and the addition of five bytes
  is not skipped, its fifth byte becomes a prefix of one byte.
\<close>

theorem decode_failure_counterexample:
  "get_malicious_url_hash_prefixes
     (Some [[\<lparr>rh_prefixSize = 4, rh_rawHashes = str ''c9mG4A''\<rparr>,
             \<lparr>rh_prefixSize = 4, rh_rawHashes = str ''c9mG4CwQvLY=''\<rparr>]]) = Inl BinasciiError
   \<and> get_malicious_url_hash_prefixes
       (Some [[\<lparr>rh_prefixSize = 4, rh_rawHashes = str ''c9mG4Cw=''\<rparr>]]) =
       Inr {[0x73, 0xd9, 0x86, 0xe0], [0x2c]}"
  by (simp add: get_malicious_url_hash_prefixes_def addition_hashes_bad addition_hashes_odd)

section \<open>Properties of add_IPs\<close>

































end
